theory Spec2Isabelle
  imports Complex_Main "HOL-Library.Sublist" "HOL-Library.AList"
begin

section \<open>Web SDK: the client event buffer (sdk/web/src/index.ts)\<close>

text \<open>
  Event properties are a string-keyed object of scalars. Objects are association lists:
  a JavaScript object keeps its keys in insertion order, and writing an existing key
  keeps its position, which is what \<^const>\<open>AList.update\<close> does.
\<close>

datatype scalar = PStr string | PNum int | PBool bool

type_synonym EventProperties = "(string \<times> scalar) list"

text \<open>The object spread \<^verbatim>\<open>{...a, ...b}\<close>: the keys of \<open>b\<close> are written over \<open>a\<close> in order.\<close>

definition spread :: "(string \<times> 'v) list \<Rightarrow> (string \<times> 'v) list \<Rightarrow> (string \<times> 'v) list" where
  "spread a b = foldl (\<lambda>acc kv. AList.update (fst kv) (snd kv) acc) a b"

record TrackEventData =
  user_id :: string
  event_name :: string
  properties :: EventProperties
  timestamp :: nat
  session_id :: string
  platform :: string

record QueuedEvent = TrackEventData +
  event_id :: string
  retries :: nat

record AnalyticsConfig =
  batchSize :: nat
  retryAttempts :: nat
  offlineEnabled :: bool

text \<open>
  What leaves the browser. \<^verbatim>\<open>fetch\<close> is the normal awaited request;
  \<^verbatim>\<open>navigator.sendBeacon\<close> and the synchronous \<^verbatim>\<open>XMLHttpRequest\<close> are the
  fire-and-forget primitives of \<^verbatim>\<open>sendEventsSync\<close>. Each carries the batch with
  \<^verbatim>\<open>id\<close> and \<^verbatim>\<open>retries\<close> removed.
\<close>

datatype request =
    Fetch "TrackEventData list"
  | Beacon "TrackEventData list"
  | SyncXHR "TrackEventData list"

text \<open>
  The instance state. \<open>localStorage\<close> is the value stored under the key
  \<^verbatim>\<open>analytics_queue\<close> (\<open>None\<close>: no such key); \<open>sent\<close> is the log of requests
  issued, oldest first. \<open>setItemThrows\<close> and \<open>hasSendBeacon\<close> are facts of the
  browser: whether \<^verbatim>\<open>localStorage.setItem\<close> raises (quota), and whether
  \<^verbatim>\<open>navigator.sendBeacon\<close> exists.
\<close>

record Analytics =
  config :: AnalyticsConfig
  userId :: "string option"
  sessionId :: string
  eventQueue :: "QueuedEvent list"
  isOnline :: bool
  deviceInfo :: EventProperties
  localStorage :: "QueuedEvent list option"
  sent :: "request list"
  setItemThrows :: bool
  hasSendBeacon :: bool

text \<open>The default configuration of the constructor.\<close>

definition defaultConfig :: AnalyticsConfig where
  "defaultConfig = \<lparr>batchSize = 20, retryAttempts = 3, offlineEnabled = True\<rparr>"

text \<open>\<^verbatim>\<open>events.map(({ id, retries, ...event }) => event)\<close>\<close>

definition payload :: "QueuedEvent list \<Rightarrow> TrackEventData list" where
  "payload events = map TrackEventData.truncate events"

text \<open>\<^verbatim>\<open>saveQueuedEvents\<close>: a failing \<^verbatim>\<open>setItem\<close> is logged and swallowed.\<close>

definition saveQueuedEvents :: "Analytics \<Rightarrow> Analytics" where
  "saveQueuedEvents a =
     (if setItemThrows a then a else a\<lparr>localStorage := Some (eventQueue a)\<rparr>)"

text \<open>
  \<^verbatim>\<open>sendEvents\<close> is asynchronous. Up to its \<^verbatim>\<open>await fetch(...)\<close> it runs inside
  the caller: \<open>sendEvents_start\<close> returns whether a request was issued. The rest runs
  when the response arrives: \<open>sendEvents_finish\<close>, with the outcome of the request.
  \<open>Failed\<close> stands for a rejected \<^verbatim>\<open>fetch\<close> and for a response that is not
  \<^verbatim>\<open>ok\<close>; both reach the same \<^verbatim>\<open>catch\<close> block.
\<close>

datatype outcome = Delivered | Failed

definition sendEvents_start :: "QueuedEvent list \<Rightarrow> Analytics \<Rightarrow> bool \<times> Analytics" where
  "sendEvents_start events a =
     (if \<not> isOnline a \<and> offlineEnabled (config a) then (False, a)
      else (True, a\<lparr>sent := sent a @ [Fetch (payload events)]\<rparr>))"

definition retry :: "QueuedEvent \<Rightarrow> QueuedEvent" where
  "retry event = event\<lparr>retries := retries event + 1\<rparr>"

definition retriableEvents :: "AnalyticsConfig \<Rightarrow> QueuedEvent list \<Rightarrow> QueuedEvent list" where
  "retriableEvents c events = filter (\<lambda>event. retries event < retryAttempts c) events"

definition sendEvents_finish :: "outcome \<Rightarrow> QueuedEvent list \<Rightarrow> Analytics \<Rightarrow> Analytics" where
  "sendEvents_finish r events a =
     (case r of
        Delivered \<Rightarrow> (if offlineEnabled (config a) then saveQueuedEvents a else a)
      | Failed \<Rightarrow>
          (let a' = a\<lparr>eventQueue := map retry (retriableEvents (config a) events) @ eventQueue a\<rparr>
           in if offlineEnabled (config a) then saveQueuedEvents a' else a'))"

definition sendEventsSync :: "QueuedEvent list \<Rightarrow> Analytics \<Rightarrow> Analytics" where
  "sendEventsSync events a =
     (if hasSendBeacon a then a\<lparr>sent := sent a @ [Beacon (payload events)]\<rparr>
      else a\<lparr>sent := sent a @ [SyncXHR (payload events)]\<rparr>)"

text \<open>
  \<^verbatim>\<open>flush(synchronous)\<close>. The first component is the batch of the request now in
  flight, if \<^verbatim>\<open>sendEvents\<close> issued one.
\<close>

definition flush :: "bool \<Rightarrow> Analytics \<Rightarrow> QueuedEvent list option \<times> Analytics" where
  "flush synchronous a =
     (if eventQueue a = [] then (None, a)
      else
        let eventsToSend = eventQueue a;
            a1 = a\<lparr>eventQueue := []\<rparr>;
            (issued, a2) = sendEvents_start eventsToSend a1;
            a3 = (if synchronous then sendEventsSync eventsToSend a2 else a2)
        in (if issued then Some eventsToSend else None, a3))"

text \<open>
  \<^verbatim>\<open>track(eventName, properties)\<close>; \<open>newId\<close> and \<open>now\<close> are what
  \<^verbatim>\<open>generateEventId()\<close> and \<^verbatim>\<open>new Date()\<close> return.
\<close>

definition track ::
  "string \<Rightarrow> EventProperties \<Rightarrow> string \<Rightarrow> nat \<Rightarrow> Analytics \<Rightarrow> QueuedEvent list option \<times> Analytics" where
  "track eventName props newId now a =
     (let event = \<lparr>user_id = (case userId a of
                                 None \<Rightarrow> ''anonymous_'' @ sessionId a
                               | Some u \<Rightarrow> if u = [] then ''anonymous_'' @ sessionId a else u),
                    event_name = eventName,
                    properties = spread (deviceInfo a) props,
                    timestamp = now,
                    session_id = sessionId a,
                    platform = ''web'',
                    event_id = newId,
                    retries = 0\<rparr>;
          a1 = a\<lparr>eventQueue := eventQueue a @ [event]\<rparr>;
          (inflight, a2) = (if batchSize (config a1) \<le> length (eventQueue a1)
                            then flush False a1 else (None, a1))
      in (inflight, if offlineEnabled (config a2) then saveQueuedEvents a2 else a2))"

text \<open>The callback of \<^verbatim>\<open>startPeriodicFlush\<close>.\<close>

definition periodicFlush :: "Analytics \<Rightarrow> QueuedEvent list option \<times> Analytics" where
  "periodicFlush a = (if 0 < length (eventQueue a) then flush False a else (None, a))"

definition handleOnline :: "Analytics \<Rightarrow> QueuedEvent list option \<times> Analytics" where
  "handleOnline a =
     (let a1 = a\<lparr>isOnline := True\<rparr>
      in if 0 < length (eventQueue a1) then flush False a1 else (None, a1))"

definition handleOffline :: "Analytics \<Rightarrow> Analytics" where
  "handleOffline a = a\<lparr>isOnline := False\<rparr>"

text \<open>
  \<^verbatim>\<open>identify(userId, properties)\<close>: the user id is set first, so the
  \<^verbatim>\<open>previous_user_id\<close> it records is already the new one.
\<close>

definition setUserId :: "string \<Rightarrow> Analytics \<Rightarrow> Analytics" where
  "setUserId u a = a\<lparr>userId := Some u\<rparr>"

definition identify ::
  "string \<Rightarrow> EventProperties \<Rightarrow> string \<Rightarrow> nat \<Rightarrow> Analytics \<Rightarrow> QueuedEvent list option \<times> Analytics" where
  "identify u props newId now a =
     track ''user_identify'' (spread props [(''previous_user_id'', PStr u)]) newId now (setUserId u a)"

text \<open>\<^verbatim>\<open>reset()\<close>; \<open>sid\<close> is the new session id.\<close>

definition reset :: "string \<Rightarrow> Analytics \<Rightarrow> Analytics" where
  "reset sid a =
     (let a1 = a\<lparr>userId := None, sessionId := sid, eventQueue := []\<rparr>
      in if offlineEnabled (config a1) then a1\<lparr>localStorage := None\<rparr> else a1)"

text \<open>
  A run of one instance: the calls and browser events that reach it, and the responses
  of the requests in flight (\<open>Settle k r\<close>: the \<open>k\<close>-th request in flight ends with
  \<open>r\<close>; responses may arrive in any order).
\<close>

datatype action =
    Track string EventProperties string nat
  | Identify string EventProperties string nat
  | SetUserId string
  | Reset string
  | Flush bool
  | Tick
  | Online
  | Offline
  | Settle nat outcome

type_synonym sdk = "Analytics \<times> QueuedEvent list list"

definition inflight_add :: "QueuedEvent list option \<Rightarrow> QueuedEvent list list \<Rightarrow> QueuedEvent list list" where
  "inflight_add b fl = (case b of None \<Rightarrow> fl | Some events \<Rightarrow> fl @ [events])"

fun sdk_step :: "action \<Rightarrow> sdk \<Rightarrow> sdk" where
  "sdk_step (Track n p i t) (a, fl) = (let (b, a') = track n p i t a in (a', inflight_add b fl))"
| "sdk_step (Identify u p i t) (a, fl) = (let (b, a') = identify u p i t a in (a', inflight_add b fl))"
| "sdk_step (SetUserId u) (a, fl) = (setUserId u a, fl)"
| "sdk_step (Reset sid) (a, fl) = (reset sid a, fl)"
| "sdk_step (Flush s) (a, fl) = (let (b, a') = flush s a in (a', inflight_add b fl))"
| "sdk_step Tick (a, fl) = (let (b, a') = periodicFlush a in (a', inflight_add b fl))"
| "sdk_step Online (a, fl) = (let (b, a') = handleOnline a in (a', inflight_add b fl))"
| "sdk_step Offline (a, fl) = (handleOffline a, fl)"
| "sdk_step (Settle k r) (a, fl) =
     (if k < length fl then (sendEvents_finish r (fl ! k) a, take k fl @ drop (Suc k) fl)
      else (a, fl))"

fun run :: "action list \<Rightarrow> sdk \<Rightarrow> sdk" where
  "run [] s = s"
| "run (x # xs) s = run xs (sdk_step x s)"

text \<open>The identifiers of the events an instance still holds, queued or in flight.\<close>

definition held :: "sdk \<Rightarrow> string set" where
  "held s = event_id ` set (eventQueue (fst s)) \<union> event_id ` (\<Union>b \<in> set (snd s). set b)"

text \<open>The identifiers that the \<^verbatim>\<open>track\<close> calls of a run generate.\<close>

fun tracked :: "action list \<Rightarrow> string set" where
  "tracked [] = {}"
| "tracked (Track n p i t # xs) = insert i (tracked xs)"
| "tracked (Identify u p i t # xs) = insert i (tracked xs)"
| "tracked (x # xs) = tracked xs"

text \<open>
  The instance the constructor leaves behind, before the first \<^verbatim>\<open>track\<close>:
  \<open>online\<close> is \<^verbatim>\<open>navigator.onLine\<close>, \<open>sid\<close> the generated session id.
\<close>

definition newAnalytics :: "AnalyticsConfig \<Rightarrow> string \<Rightarrow> bool \<Rightarrow> Analytics" where
  "newAnalytics c sid online =
     \<lparr>config = c, userId = None, sessionId = sid, eventQueue = [], isOnline = online,
      deviceInfo = [], localStorage = None, sent = [], setItemThrows = False,
      hasSendBeacon = True\<rparr>"

text \<open>A queued event of an anonymous user, as \<^verbatim>\<open>track\<close> builds it, with a given retry count.\<close>

definition sampleEvent :: "string \<Rightarrow> nat \<Rightarrow> QueuedEvent" where
  "sampleEvent i r = \<lparr>user_id = ''anonymous_s1'', event_name = ''click'', properties = [], timestamp = 0,
      session_id = ''s1'', platform = ''web'', event_id = i, retries = r\<rparr>"

section \<open>Query service (backend/src/services/aiQueryService.ts)\<close>

text \<open>
  Strings are byte strings. \<^verbatim>\<open>toLowerCase\<close> and \<^verbatim>\<open>toUpperCase\<close> are modelled on
  the ASCII letters: every literal the code compares with is ASCII, and no other character
  maps to one of their letters in a way that completes a match.
\<close>

definition toLowerCase :: "string \<Rightarrow> string" where
  "toLowerCase s =
     map (\<lambda>c. let n = (of_char c :: nat) in if 65 \<le> n \<and> n \<le> 90 then char_of (n + 32) else c) s"

definition toUpperCase :: "string \<Rightarrow> string" where
  "toUpperCase s =
     map (\<lambda>c. let n = (of_char c :: nat) in if 97 \<le> n \<and> n \<le> 122 then char_of (n - 32) else c) s"

text \<open>\<^verbatim>\<open>s.includes(sub)\<close>: \<open>sub\<close> occurs in \<open>s\<close> at some position.\<close>

fun includes_str :: "string \<Rightarrow> string \<Rightarrow> bool" where
  "includes_str [] sub = (sub = [])"
| "includes_str (c # cs) sub = (prefix sub (c # cs) \<or> includes_str cs sub)"


definition dangerousKeywords :: "string list" where
  "dangerousKeywords = [''drop'', ''delete'', ''update'', ''insert'', ''alter'', ''create'']"

text \<open>
  The checks of \<^verbatim>\<open>validateSQL\<close>, in the order of the source: the errors and the
  warnings collected before the query is sent to \<^verbatim>\<open>EXPLAIN SYNTAX\<close>.
\<close>

definition validateSQL_errors :: "string \<Rightarrow> string list" where
  "validateSQL_errors sql =
     (if \<not> includes_str (toLowerCase sql) ''select''
      then [''Query must be a SELECT statement''] else [])
     @ (if \<not> includes_str sql ''project_id''
        then [''Query must include project_id filter for security''] else [])
     @ concat (map (\<lambda>keyword.
          if includes_str (toLowerCase sql) keyword
          then [''Dangerous operation detected: '' @ toUpperCase keyword] else [])
        dangerousKeywords)"

definition validateSQL_warnings :: "string \<Rightarrow> string list" where
  "validateSQL_warnings sql =
     (if \<not> includes_str (toLowerCase sql) ''limit''
      then [''Consider adding LIMIT clause for better performance''] else [])
     @ (if \<not> includes_str (toLowerCase sql) ''timestamp >=''
           \<and> \<not> includes_str (toLowerCase sql) ''timestamp between''
        then [''Consider adding timestamp filter for better performance''] else [])"

record Validation =
  isValid :: bool
  errors :: "string list"
  warnings :: "string list"

text \<open>
  Modelled from the spec: the end of \<^verbatim>\<open>validateSQL\<close>. The source breaks off inside
  the \<^verbatim>\<open>try\<close> around the \<^verbatim>\<open>EXPLAIN SYNTAX\<close> call, which is made only when no
  error was collected; its \<^verbatim>\<open>catch\<close> block and the \<^verbatim>\<open>return\<close> are missing.
  \<open>explainErrors\<close> stands for the errors that block adds (none when ClickHouse accepts
  the query). The record returned is valid exactly when no error was collected: the spec's
  validation step rejects a query whenever one of its checks fails, and
  \<^verbatim>\<open>processNaturalLanguageQuery\<close> reports \<^verbatim>\<open>validation.errors\<close> whenever
  \<^verbatim>\<open>isValid\<close> is false.
\<close>

definition validateSQL :: "(string \<Rightarrow> string list) \<Rightarrow> string \<Rightarrow> Validation" where
  "validateSQL explainErrors sql =
     (let errors0 = validateSQL_errors sql;
          errors1 = (if errors0 = [] then explainErrors sql else errors0)
      in \<lparr>isValid = (errors1 = []), errors = errors1, warnings = validateSQL_warnings sql\<rparr>)"


type_synonym row = "(string \<times> string) list"

record QueryContext =
  project_id :: string
  limit :: "nat option"

record AIQueryResult =
  sql :: string
  data :: "row list option"
  insights :: "string list option"
  visualization :: "string option"
  error :: "string option"

text \<open>
  The collaborators of the service. Each may throw, which is \<open>Inl\<close> with the message:
  \<open>generateSQL\<close> is the call to the language model, for the sanitized question and the
  context, with the extraction of the query from its answer; \<open>clickhouse\<close> runs a query
  text and yields its rows.
  \<^verbatim>\<open>generateInsights\<close> and \<^verbatim>\<open>suggestVisualization\<close> lie in the part of the source
  that is cut off; they are taken as given.
\<close>

record Collaborators =
  explainErrors :: "string \<Rightarrow> string list"
  generateSQL :: "string \<Rightarrow> QueryContext \<Rightarrow> string + string"
  clickhouse :: "string \<Rightarrow> string + row list"
  generateInsights :: "row list \<Rightarrow> string \<Rightarrow> string + string list"
  suggestVisualization :: "row list \<Rightarrow> string \<Rightarrow> string + string"






text \<open>A ClickHouse that accepts every query text: its \<^verbatim>\<open>EXPLAIN SYNTAX\<close> adds no error.\<close>

definition explainOk :: "string \<Rightarrow> string list" where
  "explainOk q = []"


section \<open>JSON values and request validation (backend/src/utils/validation.ts)\<close>

text \<open>
  Request bodies and events on the server are JSON values; an object is an association
  list in key order. Numbers are integers here: no rule below looks inside a number.
\<close>

datatype json =
    JNull
  | JBool bool
  | JNum int
  | JStr string
  | JArr "json list"
  | JObj "(string \<times> json) list"

type_synonym jobject = "(string \<times> json) list"

text \<open>Decimal digits of a number, as template strings and Joi's labels print it.\<close>

function toString :: "nat \<Rightarrow> string" where
  "toString n = (if n < 10 then [char_of (48 + n)] else toString (n div 10) @ [char_of (48 + n mod 10)])"
  by pat_completeness auto
termination
  by (relation "measure id") auto

declare toString.simps [simp del]

text \<open>
  A Joi validation error: the path of the offending value and what is wrong with it.
  \<open>joi_message\<close> is \<^verbatim>\<open>error.details[0].message\<close>, which starts with the quoted
  label of the path, such as \<^verbatim>\<open>"events[2].user_id"\<close>.
\<close>

datatype path_elem = Key string | Index nat

datatype joi_error = JoiError (path: "path_elem list") (problem: string)

fun label_rest :: "path_elem list \<Rightarrow> string" where
  "label_rest [] = []"
| "label_rest (Key k # ps) = ''.'' @ k @ label_rest ps"
| "label_rest (Index i # ps) = ''['' @ toString i @ '']'' @ label_rest ps"

fun label :: "path_elem list \<Rightarrow> string" where
  "label [] = ''value''"
| "label (Key k # ps) = k @ label_rest ps"
| "label (Index i # ps) = ''['' @ toString i @ '']'' @ label_rest ps"

definition joi_message :: "joi_error \<Rightarrow> string" where
  "joi_message e = [CHR 0x22] @ label (path e) @ [CHR 0x22] @ '' '' @ problem e"

text \<open>
  What the schemas take from the Joi library and from \<^verbatim>\<open>Date\<close>: which strings are
  GUIDs, and which values \<^verbatim>\<open>Joi.date().iso()\<close> accepts; an accepted date is
  represented by its \<^verbatim>\<open>toISOString()\<close> text.
\<close>

record Joi =
  isGuid :: "string \<Rightarrow> bool"
  isoDate :: "json \<Rightarrow> string option"

text \<open>
  \<^verbatim>\<open>eventSchema\<close>, key by key in the order of the declaration. Joi stops at the first
  error; keys the schema does not declare are an error; \<^verbatim>\<open>Joi.string()\<close> does not
  accept the empty string.
\<close>

definition check_user_id :: "Joi \<Rightarrow> jobject \<Rightarrow> joi_error option" where
  "check_user_id J obj =
     (case map_of obj ''user_id'' of
        None \<Rightarrow> Some (JoiError [Key ''user_id''] ''is required'')
      | Some (JStr s) \<Rightarrow>
          if s = [] then Some (JoiError [Key ''user_id''] ''is not allowed to be empty'')
          else if \<not> isGuid J s then Some (JoiError [Key ''user_id''] ''must be a valid GUID'')
          else None
      | Some _ \<Rightarrow> Some (JoiError [Key ''user_id''] ''must be a string''))"

definition check_event_name :: "jobject \<Rightarrow> joi_error option" where
  "check_event_name obj =
     (case map_of obj ''event_name'' of
        None \<Rightarrow> Some (JoiError [Key ''event_name''] ''is required'')
      | Some (JStr s) \<Rightarrow>
          if s = [] then Some (JoiError [Key ''event_name''] ''is not allowed to be empty'')
          else if 100 < length s
          then Some (JoiError [Key ''event_name''] ''length must be less than or equal to 100 characters long'')
          else None
      | Some _ \<Rightarrow> Some (JoiError [Key ''event_name''] ''must be a string''))"

fun check_property_values :: "jobject \<Rightarrow> joi_error option" where
  "check_property_values [] = None"
| "check_property_values ((k, v) # ps) =
     (if k = [] then Some (JoiError [Key ''properties'', Key k] ''is not allowed'')
      else case v of
        JStr s \<Rightarrow>
          if s = []
          then Some (JoiError [Key ''properties'', Key k] ''does not match any of the allowed types'')
          else check_property_values ps
      | JNum n \<Rightarrow> check_property_values ps
      | JBool b \<Rightarrow> check_property_values ps
      | _ \<Rightarrow> Some (JoiError [Key ''properties'', Key k] ''does not match any of the allowed types''))"

definition check_properties :: "jobject \<Rightarrow> joi_error option" where
  "check_properties obj =
     (case map_of obj ''properties'' of
        None \<Rightarrow> None
      | Some (JObj ps) \<Rightarrow> check_property_values ps
      | Some _ \<Rightarrow> Some (JoiError [Key ''properties''] ''must be of type object''))"

definition check_timestamp :: "Joi \<Rightarrow> jobject \<Rightarrow> joi_error option" where
  "check_timestamp J obj =
     (case map_of obj ''timestamp'' of
        None \<Rightarrow> None
      | Some v \<Rightarrow>
          (case isoDate J v of
             None \<Rightarrow> Some (JoiError [Key ''timestamp''] ''must be in ISO 8601 date format'')
           | Some t \<Rightarrow> None))"

definition check_session_id :: "Joi \<Rightarrow> jobject \<Rightarrow> joi_error option" where
  "check_session_id J obj =
     (case map_of obj ''session_id'' of
        None \<Rightarrow> None
      | Some (JStr s) \<Rightarrow>
          if s = [] then Some (JoiError [Key ''session_id''] ''is not allowed to be empty'')
          else if \<not> isGuid J s then Some (JoiError [Key ''session_id''] ''must be a valid GUID'')
          else None
      | Some _ \<Rightarrow> Some (JoiError [Key ''session_id''] ''must be a string''))"

definition check_platform :: "jobject \<Rightarrow> joi_error option" where
  "check_platform obj =
     (case map_of obj ''platform'' of
        None \<Rightarrow> None
      | Some v \<Rightarrow>
          if v \<in> {JStr ''web'', JStr ''android'', JStr ''ios''} then None
          else Some (JoiError [Key ''platform''] ''must be one of [web, android, ios]''))"

definition eventSchema_keys :: "string list" where
  "eventSchema_keys =
     [''user_id'', ''event_name'', ''properties'', ''timestamp'', ''session_id'', ''platform'']"

definition check_unknown :: "string list \<Rightarrow> jobject \<Rightarrow> joi_error option" where
  "check_unknown keys obj =
     (case filter (\<lambda>k. k \<notin> set keys) (map fst obj) of
        [] \<Rightarrow> None
      | k # ks \<Rightarrow> Some (JoiError [Key k] ''is not allowed''))"

fun first_error :: "joi_error option list \<Rightarrow> joi_error option" where
  "first_error [] = None"
| "first_error (None # cs) = first_error cs"
| "first_error (Some e # cs) = Some e"

text \<open>
  The validated value: the defaults of the schema filled in (\<open>now\<close> is the
  \<^verbatim>\<open>new Date()\<close> of the default), the timestamp converted to a date.
\<close>

definition with_defaults :: "Joi \<Rightarrow> string \<Rightarrow> jobject \<Rightarrow> jobject" where
  "with_defaults J now obj =
     (let f1 = (case map_of obj ''properties'' of
                  None \<Rightarrow> AList.update ''properties'' (JObj []) obj | Some v \<Rightarrow> obj);
          f2 = (case map_of f1 ''timestamp'' of
                  None \<Rightarrow> AList.update ''timestamp'' (JStr now) f1
                | Some v \<Rightarrow>
                    (case isoDate J v of
                       None \<Rightarrow> f1
                     | Some t \<Rightarrow> AList.update ''timestamp'' (JStr t) f1))
      in case map_of f2 ''platform'' of
           None \<Rightarrow> AList.update ''platform'' (JStr ''web'') f2 | Some v \<Rightarrow> f2)"

definition eventSchema_validate :: "Joi \<Rightarrow> string \<Rightarrow> json \<Rightarrow> joi_error + jobject" where
  "eventSchema_validate J now v =
     (case v of
        JObj obj \<Rightarrow>
          (case first_error
                  [check_user_id J obj, check_event_name obj, check_properties obj,
                   check_timestamp J obj, check_session_id J obj, check_platform obj,
                   check_unknown eventSchema_keys obj] of
             Some e \<Rightarrow> Inl e
           | None \<Rightarrow> Inr (with_defaults J now obj))
      | _ \<Rightarrow> Inl (JoiError [] ''must be of type object''))"

text \<open>
  \<^verbatim>\<open>batchEventsSchema\<close>: \<^verbatim>\<open>events\<close> is a required array whose items all match
  \<^verbatim>\<open>eventSchema\<close>, the first failing item giving the error, with its index in the
  path; Joi checks the items before the length rules \<^verbatim>\<open>min(1)\<close> and \<^verbatim>\<open>max(100)\<close>.
\<close>

fun validate_items :: "Joi \<Rightarrow> string \<Rightarrow> nat \<Rightarrow> json list \<Rightarrow> joi_error + jobject list" where
  "validate_items J now i [] = Inr []"
| "validate_items J now i (x # xs) =
     (case eventSchema_validate J now x of
        Inl e \<Rightarrow> Inl (JoiError (Key ''events'' # Index i # path e) (problem e))
      | Inr v \<Rightarrow>
          (case validate_items J now (Suc i) xs of
             Inl e \<Rightarrow> Inl e
           | Inr vs \<Rightarrow> Inr (v # vs)))"

definition batchEventsSchema_validate :: "Joi \<Rightarrow> string \<Rightarrow> json \<Rightarrow> joi_error + jobject list" where
  "batchEventsSchema_validate J now v =
     (case v of
        JObj obj \<Rightarrow>
          (case map_of obj ''events'' of
             None \<Rightarrow> Inl (JoiError [Key ''events''] ''is required'')
           | Some (JArr items) \<Rightarrow>
               (case validate_items J now 0 items of
                  Inl e \<Rightarrow> Inl e
                | Inr vs \<Rightarrow>
                    if length items < 1
                    then Inl (JoiError [Key ''events''] ''must contain at least 1 items'')
                    else if 100 < length items
                    then Inl (JoiError [Key ''events''] ''must contain less than or equal to 100 items'')
                    else (case check_unknown [''events''] obj of
                            Some e \<Rightarrow> Inl e
                          | None \<Rightarrow> Inr vs))
           | Some _ \<Rightarrow> Inl (JoiError [Key ''events''] ''must be an array''))
      | _ \<Rightarrow> Inl (JoiError [] ''must be of type object''))"

section \<open>Ingestion routes (backend/src/routes/events.ts)\<close>

text \<open>
  What a handler reads of the request: the body, the project the API key resolved to
  (\<^verbatim>\<open>req.project.id\<close>), the client address and the \<^verbatim>\<open>User-Agent\<close> header.
\<close>

record Request =
  body :: json
  project :: string
  ip :: string
  userAgent :: "string option"

text \<open>
  The effects of a handler on its collaborators, in the order in which they take place:
  the ClickHouse insert, the Redis list commands on the recent-events key, and the call of
  \<^verbatim>\<open>realtimeService.broadcastEvent\<close>. A cached event is kept as the object, not as
  its \<^verbatim>\<open>JSON.stringify\<close> text.
\<close>

datatype effect =
    Insert "jobject list"
  | LPush string jobject
  | LTrim string nat nat
  | Expire string nat
  | Broadcast string jobject

text \<open>
  Which calls succeed. A failing call throws and takes no effect; \<open>execOk\<close> is the
  \<^verbatim>\<open>exec()\<close> of a Redis \<^verbatim>\<open>multi()\<close> pipeline, which runs all its commands or throws.
\<close>

record Backend =
  insertOk :: "jobject list \<Rightarrow> bool"
  redisOk :: "effect \<Rightarrow> bool"
  execOk :: "effect list \<Rightarrow> bool"

datatype reply = Reply (status: nat) (content: json)

text \<open>
  \<^verbatim>\<open>{...value, project_id, ip, user_agent, timestamp}\<close>. The validated value always
  has a timestamp, already a date, so \<^verbatim>\<open>new Date(value.timestamp).toISOString()\<close> is
  its text.
\<close>

definition enrich :: "Request \<Rightarrow> jobject \<Rightarrow> jobject" where
  "enrich req v =
     (let e1 = AList.update ''project_id'' (JStr (project req)) v;
          e2 = AList.update ''ip'' (JStr (ip req)) e1;
          e3 = AList.update ''user_agent''
                 (JStr (case userAgent req of None \<Rightarrow> [] | Some ua \<Rightarrow> ua)) e2
      in case map_of v ''timestamp'' of
           None \<Rightarrow> e3
         | Some t \<Rightarrow> AList.update ''timestamp'' t e3)"

definition cacheKey :: "string \<Rightarrow> string" where
  "cacheKey projectId = ''recent_events:'' @ projectId"

definition error_reply :: "nat \<Rightarrow> string \<Rightarrow> reply" where
  "error_reply code msg = Reply code (JObj [(''error'', JStr msg)])"

text \<open>\<^verbatim>\<open>POST /\<close>: one event. The result is the effects that took place and the response.\<close>

definition post_event :: "Joi \<Rightarrow> Backend \<Rightarrow> string \<Rightarrow> Request \<Rightarrow> effect list \<times> reply" where
  "post_event J B now req =
     (case eventSchema_validate J now (body req) of
        Inl e \<Rightarrow> ([], error_reply 400 (joi_message e))
      | Inr v \<Rightarrow>
          let event = enrich req v;
              key = cacheKey (project req)
          in if \<not> insertOk B [event] then ([], error_reply 500 ''Failed to track event'')
             else if \<not> redisOk B (LPush key event)
             then ([Insert [event]], error_reply 500 ''Failed to track event'')
             else if \<not> redisOk B (LTrim key 0 99)
             then ([Insert [event], LPush key event], error_reply 500 ''Failed to track event'')
             else if \<not> redisOk B (Expire key 3600)
             then ([Insert [event], LPush key event, LTrim key 0 99],
                   error_reply 500 ''Failed to track event'')
             else ([Insert [event], LPush key event, LTrim key 0 99, Expire key 3600,
                    Broadcast (project req) event],
                   Reply 201 (JObj
                     [(''message'', JStr ''Event tracked successfully''),
                      (''event_id'', (case map_of event ''id'' of
                                        None \<Rightarrow> JStr ''generated'' | Some i \<Rightarrow> i)),
                      (''timestamp'', (case map_of event ''timestamp'' of
                                         None \<Rightarrow> JNull | Some t \<Rightarrow> t))])))"

text \<open>\<^verbatim>\<open>POST /batch\<close>: a list of events.\<close>

definition post_batch :: "Joi \<Rightarrow> Backend \<Rightarrow> string \<Rightarrow> Request \<Rightarrow> effect list \<times> reply" where
  "post_batch J B now req =
     (case batchEventsSchema_validate J now (body req) of
        Inl e \<Rightarrow> ([], error_reply 400 (joi_message e))
      | Inr vs \<Rightarrow>
          let projectId = project req;
              events = map (enrich req) vs;
              key = cacheKey projectId;
              pipeline = map (LPush key) events @ [LTrim key 0 99, Expire key 3600]
          in if \<not> insertOk B events then ([], error_reply 500 ''Failed to track batch events'')
             else if \<not> execOk B pipeline
             then ([Insert events], error_reply 500 ''Failed to track batch events'')
             else (Insert events # pipeline @ map (Broadcast projectId) events,
                   Reply 201 (JObj
                     [(''message'', JStr ''Batch events tracked successfully''),
                      (''events_count'', JNum (int (length events))),
                      (''timestamp'', JStr now)])))"

text \<open>Which effects are the durable write, and which are cache updates or fan-out.\<close>

fun is_insert :: "effect \<Rightarrow> bool" where
  "is_insert (Insert es) = True"
| "is_insert x = False"

section \<open>Real-time hub (backend/src/services/realtimeService.ts)\<close>

text \<open>
  The socket.io server as the service uses it: the rooms with the sockets that joined
  them, and the messages emitted so far, each with the socket that receives it.
\<close>

record RealtimeService =
  rooms :: "(string \<times> string list) list"
  emitted :: "(string \<times> string \<times> json) list"

definition members :: "RealtimeService \<Rightarrow> string \<Rightarrow> string list" where
  "members svc room = (case map_of (rooms svc) room of None \<Rightarrow> [] | Some socks \<Rightarrow> socks)"

text \<open>\<^verbatim>\<open>this.io.to(room).emit(name, msg)\<close>\<close>

definition emit_to :: "string \<Rightarrow> string \<Rightarrow> json \<Rightarrow> RealtimeService \<Rightarrow> RealtimeService" where
  "emit_to room name msg svc =
     svc\<lparr>emitted := emitted svc @ map (\<lambda>sock. (sock, name, msg)) (members svc room)\<rparr>"

text \<open>\<^verbatim>\<open>broadcastEvent(projectId, event)\<close>; \<open>now\<close> is \<^verbatim>\<open>new Date().toISOString()\<close>.\<close>

definition broadcastEvent :: "string \<Rightarrow> string \<Rightarrow> jobject \<Rightarrow> RealtimeService \<Rightarrow> RealtimeService" where
  "broadcastEvent now projectId event svc =
     emit_to (''project_'' @ projectId) ''new_event''
       (JObj (AList.update ''timestamp'' (JStr now) event)) svc"

section \<open>Funnel analysis (backend/src/routes/analytics.ts)\<close>

text \<open>\<^verbatim>\<open>s.split(',')\<close>\<close>

fun split_comma :: "string \<Rightarrow> string list" where
  "split_comma [] = [[]]"
| "split_comma (c # cs) =
     (if c = CHR '','' then [] # split_comma cs
      else case split_comma cs of [] \<Rightarrow> [[c]] | w # ws \<Rightarrow> (c # w) # ws)"

text \<open>\<^verbatim>\<open>Math.round\<close>: the nearest integer, a half rounded up. Numbers are exact rationals.\<close>

definition Math_round :: "rat \<Rightarrow> int" where
  "Math_round x = floor (x + 1 / 2)"

record FunnelStep =
  step :: nat
  step_event_name :: string
  users :: nat
  conversion_rate :: rat

text \<open>
  The body of \<^verbatim>\<open>events.map((event, index) => ...)\<close>. \<open>rawData\<close> is the row of
  counts, an object with keys \<^verbatim>\<open>step_1_users\<close>, \<^verbatim>\<open>step_2_users\<close>, ...; a key that
  is missing reads as \<^verbatim>\<open>undefined\<close>, which \<^verbatim>\<open>|| 0\<close> turns into 0 for the step's own
  count and which is not greater than 0 for the previous step's count.
\<close>

definition users_key :: "nat \<Rightarrow> string" where
  "users_key n = ''step_'' @ toString n @ ''_users''"

definition funnelStep :: "(string \<times> nat) list \<Rightarrow> string \<Rightarrow> nat \<Rightarrow> FunnelStep" where
  "funnelStep rawData event index =
     (let stepUsers = (case map_of rawData (users_key (index + 1)) of None \<Rightarrow> 0 | Some n \<Rightarrow> n);
          previousStepUsers = (if 0 < index then map_of rawData (users_key index) else Some stepUsers);
          conversionRate = (case previousStepUsers of
                              None \<Rightarrow> 0
                            | Some p \<Rightarrow> if 0 < p then (of_nat stepUsers / of_nat p) * 100 else 0)
      in \<lparr>step = index + 1, step_event_name = event, users = stepUsers,
          conversion_rate = of_int (Math_round (conversionRate * 100)) / 100\<rparr>)"

definition funnelData :: "string list \<Rightarrow> (string \<times> nat) list \<Rightarrow> FunnelStep list" where
  "funnelData events rawData =
     map (\<lambda>(event, index). funnelStep rawData event index) (zip events [0 ..< length events])"

text \<open>
  \<^verbatim>\<open>GET /funnel\<close>. \<open>eventsParam\<close> is the query parameter \<^verbatim>\<open>events\<close>, \<open>result\<close>
  what the ClickHouse query yields (\<open>Inl\<close>: it throws). The handler reads the counts with
  \<^verbatim>\<open>await result.json()[0] || {}\<close>: the index is applied to the promise that
  \<^verbatim>\<open>json()\<close> returns, before the \<^verbatim>\<open>await\<close>, so it reads \<^verbatim>\<open>undefined\<close> and
  \<^verbatim>\<open>rawData\<close> is the empty object whatever the rows are.
\<close>

datatype funnel_reply =
    Funnel "FunnelStep list" "string list"
  | FunnelError nat string

definition get_funnel :: "string option \<Rightarrow> string + (string \<times> nat) list list \<Rightarrow> funnel_reply" where
  "get_funnel eventsParam result =
     (let events = (case eventsParam of None \<Rightarrow> [] | Some s \<Rightarrow> split_comma s)
      in if length events < 2
         then FunnelError 400 ''At least 2 events required for funnel analysis''
         else case result of
                Inl message \<Rightarrow> FunnelError 500 ''Failed to perform funnel analysis''
              | Inr rows \<Rightarrow> Funnel (funnelData events []) events)"

text \<open>The count the handler reads for step \<open>k\<close> (counted from 1): 0 when the key is missing.\<close>

definition usersAtStep :: "(string \<times> nat) list \<Rightarrow> nat \<Rightarrow> nat" where
  "usersAtStep rawData k = (case map_of rawData (users_key k) of None \<Rightarrow> 0 | Some n \<Rightarrow> n)"

section \<open>Sample collaborators and requests for the examples\<close>

text \<open>
  A stand-in for the Joi library's format tests: the 36-character strings count as GUIDs,
  the 24-character strings as ISO dates.
\<close>

definition sampleJoi :: Joi where
  "sampleJoi =
     \<lparr>isGuid = (\<lambda>s. length s = 36),
      isoDate = (\<lambda>v. case v of JStr s \<Rightarrow> if length s = 24 then Some s else None | _ \<Rightarrow> None)\<rparr>"

text \<open>A backend whose Redis works and whose ClickHouse insert succeeds or not, as given.\<close>

definition sampleBackend :: "bool \<Rightarrow> Backend" where
  "sampleBackend ok = \<lparr>insertOk = (\<lambda>es. ok), redisOk = (\<lambda>c. True), execOk = (\<lambda>cs. True)\<rparr>"

definition validEvent :: "string \<Rightarrow> json" where
  "validEvent name =
     JObj [(''user_id'', JStr ''123e4567-e89b-12d3-a456-426614174000''), (''event_name'', JStr name)]"

definition sampleRequest :: "json \<Rightarrow> Request" where
  "sampleRequest b = \<lparr>body = b, project = ''p1'', ip = ''10.0.0.1'', userAgent = None\<rparr>"

section \<open>Properties of the client event buffer\<close>

lemma event_id_retry [simp]: "event_id (retry e) = event_id e"
  by (simp add: retry_def)

lemma retries_retry [simp]: "retries (retry e) = Suc (retries e)"
  by (simp add: retry_def)

lemma eventQueue_save [simp]: "eventQueue (saveQueuedEvents a) = eventQueue a"
  by (simp add: saveQueuedEvents_def)

lemma eventQueue_finish_Failed:
  "eventQueue (sendEvents_finish Failed events a) =
     map retry (retriableEvents (config a) events) @ eventQueue a"
  by (simp add: sendEvents_finish_def Let_def)

lemma eventQueue_finish_Delivered [simp]:
  "eventQueue (sendEvents_finish Delivered events a) = eventQueue a"
  by (simp add: sendEvents_finish_def)

lemma eventQueue_start [simp]: "eventQueue (snd (sendEvents_start events a)) = eventQueue a"
  by (simp add: sendEvents_start_def)

lemma eventQueue_sync [simp]: "eventQueue (sendEventsSync events a) = eventQueue a"
  by (simp add: sendEventsSync_def)

lemma flush_shape:
  assumes "flush s a = (b, a')"
  shows "(b = None \<and> eventQueue a' = eventQueue a) \<or>
         (eventQueue a' = [] \<and> (b = None \<or> b = Some (eventQueue a)))"
proof (cases "eventQueue a = []")
  case True
  then show ?thesis using assms by (simp add: flush_def)
next
  case False
  obtain issued a2 where st: "sendEvents_start (eventQueue a) (a\<lparr>eventQueue := []\<rparr>) = (issued, a2)"
    by (cases "sendEvents_start (eventQueue a) (a\<lparr>eventQueue := []\<rparr>)")
  have q2: "eventQueue a2 = []"
    using eventQueue_start [of "eventQueue a" "a\<lparr>eventQueue := []\<rparr>"] st by simp
  have "a' = (if s then sendEventsSync (eventQueue a) a2 else a2)"
    and "b = (if issued then Some (eventQueue a) else None)"
    using assms False st by (simp_all add: flush_def Let_def)
  then show ?thesis using q2 by simp
qed

lemma held_Pair: "held (a, fl) = event_id ` set (eventQueue a) \<union> (\<Union>b \<in> set fl. event_id ` set b)"
  by (auto simp: held_def)

lemma held_flush:
  assumes "flush s a = (b, a')"
  shows "held (a', inflight_add b fl) \<subseteq> held (a, fl)"
  using flush_shape [OF assms]
  by (elim disjE conjE; simp add: held_Pair inflight_add_def; blast)

lemma held_append: "held (a\<lparr>eventQueue := eventQueue a @ [e]\<rparr>, fl) = insert (event_id e) (held (a, fl))"
  by (auto simp: held_Pair)

lemma held_save [simp]: "held (saveQueuedEvents a, fl) = held (a, fl)"
  by (simp add: held_Pair)

lemma held_track:
  assumes "track n p i t a = (b, a')"
  shows "held (a', inflight_add b fl) \<subseteq> insert i (held (a, fl))"
proof -
  define e where "e = \<lparr>user_id = (case userId a of
                                 None \<Rightarrow> ''anonymous_'' @ sessionId a
                               | Some u \<Rightarrow> if u = [] then ''anonymous_'' @ sessionId a else u),
                    event_name = n, properties = spread (deviceInfo a) p, timestamp = t,
                    session_id = sessionId a, platform = ''web'', event_id = i, retries = 0\<rparr>"
  define a1 where "a1 = a\<lparr>eventQueue := eventQueue a @ [e]\<rparr>"
  have h1: "held (a1, fl) = insert i (held (a, fl))"
    unfolding a1_def held_append by (simp add: e_def)
  show ?thesis
  proof (cases "batchSize (config a1) \<le> length (eventQueue a1)")
    case True
    obtain b2 a2 where f: "flush False a1 = (b2, a2)" by (cases "flush False a1")
    have "b = b2" and "a' = (if offlineEnabled (config a2) then saveQueuedEvents a2 else a2)"
      using assms True f unfolding track_def a1_def e_def by (simp_all add: Let_def)
    then have "held (a', inflight_add b fl) = held (a2, inflight_add b2 fl)" by simp
    then show ?thesis using held_flush [OF f, of fl] h1 by simp
  next
    case False
    have "b = None" and "a' = (if offlineEnabled (config a1) then saveQueuedEvents a1 else a1)"
      using assms False unfolding track_def a1_def e_def by (simp_all add: Let_def)
    then have "held (a', inflight_add b fl) = held (a1, fl)" by (simp add: inflight_add_def)
    then show ?thesis using h1 by simp
  qed
qed

lemma held_settle:
  assumes "k < length fl"
  shows "held (sendEvents_finish r (fl ! k) a, take k fl @ drop (Suc k) fl) \<subseteq> held (a, fl)"
proof -
  have "set (take k fl @ drop (Suc k) fl) \<subseteq> set fl"
    by (auto dest: in_set_takeD in_set_dropD)
  moreover have "fl ! k \<in> set fl" using assms by simp
  moreover have "event_id ` set (eventQueue (sendEvents_finish r (fl ! k) a))
      \<subseteq> event_id ` set (eventQueue a) \<union> event_id ` set (fl ! k)"
    by (cases r) (auto simp: eventQueue_finish_Failed retriableEvents_def)
  ultimately show ?thesis
    unfolding held_Pair by blast
qed

lemma held_step: "held (sdk_step x s) \<subseteq> held s \<union> tracked [x]"
proof (cases s)
  case (Pair a fl)
  show ?thesis
  proof (cases x)
    case (Track n p i t)
    obtain b a' where f: "track n p i t a = (b, a')" by (cases "track n p i t a")
    show ?thesis using held_track [OF f, of fl] f Pair Track by simp
  next
    case (Identify u p i t)
    obtain b a' where f: "track ''user_identify'' (spread p [(''previous_user_id'', PStr u)]) i t
        (setUserId u a) = (b, a')"
      by (cases "track ''user_identify'' (spread p [(''previous_user_id'', PStr u)]) i t (setUserId u a)")
    have "held (setUserId u a, fl) = held (a, fl)" by (simp add: setUserId_def held_Pair)
    then show ?thesis using held_track [OF f, of fl] f Pair Identify by (simp add: identify_def)
  next
    case (SetUserId u)
    then show ?thesis using Pair by (simp add: setUserId_def held_Pair)
  next
    case (Reset sid)
    then show ?thesis using Pair by (simp add: reset_def held_Pair Let_def)
  next
    case (Flush sy)
    obtain b a' where f: "flush sy a = (b, a')" by (cases "flush sy a")
    show ?thesis using held_flush [OF f, of fl] f Pair Flush by simp
  next
    case Tick
    show ?thesis
    proof (cases "0 < length (eventQueue a)")
      case True
      obtain b a' where f: "flush False a = (b, a')" by (cases "flush False a")
      show ?thesis using held_flush [OF f, of fl] f Pair Tick True by (simp add: periodicFlush_def)
    next
      case False
      then show ?thesis using Pair Tick by (simp add: periodicFlush_def inflight_add_def)
    qed
  next
    case Online
    define a1 where "a1 = a\<lparr>isOnline := True\<rparr>"
    have h: "held (a1, fl) = held (a, fl)" by (simp add: a1_def held_Pair)
    show ?thesis
    proof (cases "0 < length (eventQueue a1)")
      case True
      obtain b a' where f: "flush False a1 = (b, a')" by (cases "flush False a1")
      have "sdk_step x s = (a', inflight_add b fl)"
        using f Pair Online True unfolding a1_def by (simp add: handleOnline_def Let_def)
      then show ?thesis using held_flush [OF f, of fl] h Pair by auto
    next
      case False
      then have "sdk_step x s = (a1, fl)"
        using Pair Online unfolding a1_def by (simp add: handleOnline_def Let_def inflight_add_def)
      then show ?thesis using h Pair by simp
    qed
  next
    case Offline
    then show ?thesis using Pair by (simp add: handleOffline_def held_Pair)
  next
    case (Settle k r)
    then show ?thesis using held_settle [of k fl r a] Pair by auto
  qed
qed

lemma tracked_Cons: "tracked (x # xs) = tracked [x] \<union> tracked xs"
  by (cases x) auto

lemma held_run: "held (run xs s) \<subseteq> held s \<union> tracked xs"
proof (induction xs arbitrary: s)
  case Nil
  then show ?case by simp
next
  case (Cons x xs)
  have "held (run (x # xs) s) \<subseteq> held (sdk_step x s) \<union> tracked xs"
    using Cons.IH [of "sdk_step x s"] by simp
  also have "\<dots> \<subseteq> (held s \<union> tracked [x]) \<union> tracked xs"
    using held_step [of x s] by blast
  finally show ?case using tracked_Cons [of x xs] by blast
qed

text \<open>
  Claim C6. When the delivery of a batch fails, the queue afterwards is: the events of the
  batch whose retry count is below \<open>retryAttempts\<close>, in their order in the batch, each
  with its retry count one higher, followed by the queue as it was. An event of the batch
  whose retry count has reached \<open>retryAttempts\<close> is not in that queue, and is in no queue
  the instance has afterwards, whatever calls (\<^verbatim>\<open>track\<close>, \<^verbatim>\<open>identify\<close>,
  \<^verbatim>\<open>setUserId\<close>, \<^verbatim>\<open>reset\<close>, \<^verbatim>\<open>flush\<close>), timer firings, connectivity
  changes and responses follow (\<open>acts\<close>). Events are told apart by their generated identifiers: those
  of the batch differ from each other, from those queued or in flight elsewhere, and from
  those generated later.
\<close>

theorem C6_failed_delivery_requeue:
  assumes "distinct (map event_id events)"
    and "event_id ` set events \<inter> held (a, fl) = {}"
    and "tracked acts \<inter> event_id ` set events = {}"
  shows "eventQueue (sendEvents_finish Failed events a) =
           map (\<lambda>e. e\<lparr>retries := retries e + 1\<rparr>)
             (filter (\<lambda>e. retries e < retryAttempts (config a)) events) @ eventQueue a
         \<and> (\<forall>e \<in> set events. retryAttempts (config a) \<le> retries e \<longrightarrow>
               event_id e \<notin> event_id ` set (eventQueue (sendEvents_finish Failed events a))
             \<and> event_id e \<notin> event_id ` set (eventQueue (fst (run acts (sendEvents_finish Failed events a, fl)))))"
proof (intro conjI ballI impI)
  show "eventQueue (sendEvents_finish Failed events a) =
           map (\<lambda>e. e\<lparr>retries := retries e + 1\<rparr>)
             (filter (\<lambda>e. retries e < retryAttempts (config a)) events) @ eventQueue a"
    using eventQueue_finish_Failed [of events a]
    by (simp add: retriableEvents_def retry_def [abs_def])
next
  fix e assume e: "e \<in> set events" and top: "retryAttempts (config a) \<le> retries e"
  let ?s = "(sendEvents_finish Failed events a, fl)"
  have inj: "inj_on event_id (set events)"
    using assms(1) by (simp add: distinct_map)
  have "event_id e \<notin> event_id ` set (retriableEvents (config a) events)"
  proof
    assume "event_id e \<in> event_id ` set (retriableEvents (config a) events)"
    then obtain e' where e': "e' \<in> set events" "retries e' < retryAttempts (config a)"
      "event_id e = event_id e'"
      by (auto simp: retriableEvents_def)
    then have "e = e'" using inj e by (auto dest: inj_onD)
    then show False using e' top by simp
  qed
  moreover have "event_id e \<notin> held (a, fl)" using assms(2) e by blast
  ultimately have nh: "event_id e \<notin> held ?s"
    by (simp add: held_Pair eventQueue_finish_Failed image_Un image_image)
  then show "event_id e \<notin> event_id ` set (eventQueue (sendEvents_finish Failed events a))"
    by (simp add: held_Pair)
  have "event_id e \<notin> tracked acts" using assms(3) e by blast
  then have "event_id e \<notin> held (run acts ?s)" using held_run [of acts ?s] nh by blast
  then show "event_id e \<notin> event_id ` set (eventQueue (fst (run acts ?s)))"
    by (simp add: held_def)
qed

theorem C6_failed_delivery_requeue_witness:
  "eventQueue (sendEvents_finish Failed [sampleEvent ''e1'' 0, sampleEvent ''e2'' 3, sampleEvent ''e3'' 2]
       (newAnalytics defaultConfig ''s1'' True\<lparr>eventQueue := [sampleEvent ''e4'' 0]\<rparr>)) =
     [sampleEvent ''e1'' 1, sampleEvent ''e3'' 3, sampleEvent ''e4'' 0]
   \<and> ''e2'' \<notin> event_id ` set (eventQueue (fst (run [Track ''view'' [] ''e5'' 7, Tick, Settle 0 Failed]
        (sendEvents_finish Failed [sampleEvent ''e1'' 0, sampleEvent ''e2'' 3, sampleEvent ''e3'' 2]
          (newAnalytics defaultConfig ''s1'' True\<lparr>eventQueue := [sampleEvent ''e4'' 0]\<rparr>), []))))"
proof -
  let ?events = "[sampleEvent ''e1'' 0, sampleEvent ''e2'' 3, sampleEvent ''e3'' 2]"
  let ?a = "newAnalytics defaultConfig ''s1'' True\<lparr>eventQueue := [sampleEvent ''e4'' 0]\<rparr>"
  let ?acts = "[Track ''view'' [] ''e5'' 7, Tick, Settle 0 Failed]"
  have h1: "distinct (map event_id ?events)" by (simp add: sampleEvent_def)
  have h2: "event_id ` set ?events \<inter> held (?a, []) = {}"
    by (simp add: sampleEvent_def held_def newAnalytics_def)
  have h3: "tracked ?acts \<inter> event_id ` set ?events = {}" by (simp add: sampleEvent_def)
  have e2: "sampleEvent ''e2'' 3 \<in> set ?events" "retryAttempts (config ?a) \<le> retries (sampleEvent ''e2'' 3)"
    by (simp_all add: sampleEvent_def newAnalytics_def defaultConfig_def)
  show ?thesis
    using C6_failed_delivery_requeue [OF h1 h2 h3] e2
    by (simp add: sampleEvent_def newAnalytics_def defaultConfig_def)
qed

lemmas sdk_defs = newAnalytics_def defaultConfig_def sampleEvent_def handleOffline_def track_def
  Let_def saveQueuedEvents_def periodicFlush_def flush_def sendEvents_start_def handleOnline_def
  inflight_add_def sendEventsSync_def spread_def payload_def sendEvents_finish_def

text \<open>
  Claim C7, evaluated on the code. The instance goes offline and an event is tracked: it
  is queued and saved to the snapshot. The periodic timer fires while still offline:
  \<^verbatim>\<open>flush\<close> empties the queue and \<^verbatim>\<open>sendEvents\<close> returns at its offline check
  without putting the batch back. A second event is tracked, which overwrites the
  snapshot. The online signal arrives and the reconnect flush succeeds at once: only the
  second event was sent, nothing is queued, in flight or in the snapshot any more. The
  first event is lost.
\<close>

theorem C7_offline_flush_discards_events:
  "eventQueue (fst (run [Offline, Track ''click'' [] ''e1'' 0]
       (newAnalytics defaultConfig ''s1'' True, []))) = [sampleEvent ''e1'' 0]
   \<and> localStorage (fst (run [Offline, Track ''click'' [] ''e1'' 0]
       (newAnalytics defaultConfig ''s1'' True, []))) = Some [sampleEvent ''e1'' 0]
   \<and> eventQueue (fst (run [Offline, Track ''click'' [] ''e1'' 0, Tick]
       (newAnalytics defaultConfig ''s1'' True, []))) = []
   \<and> localStorage (fst (run [Offline, Track ''click'' [] ''e1'' 0, Tick, Track ''click'' [] ''e2'' 0]
       (newAnalytics defaultConfig ''s1'' True, []))) = Some [sampleEvent ''e2'' 0]
   \<and> run [Offline, Track ''click'' [] ''e1'' 0, Tick, Track ''click'' [] ''e2'' 0, Online,
            Settle 0 Delivered]
       (newAnalytics defaultConfig ''s1'' True, [])
     = (newAnalytics defaultConfig ''s1'' True
          \<lparr>localStorage := Some [], sent := [Fetch (payload [sampleEvent ''e2'' 0])]\<rparr>, [])"
  by (simp add: sdk_defs)

text \<open>
  The same loss without the timer: the batch size is reached while offline, and the
  snapshot written at the end of \<^verbatim>\<open>track\<close> is already the emptied queue.
\<close>

lemma offline_batch_flush_discards_events:
  "sent (fst (run [Offline, Track ''click'' [] ''e1'' 0, Track ''click'' [] ''e2'' 0, Online]
       (newAnalytics (defaultConfig\<lparr>batchSize := 2\<rparr>) ''s1'' True, []))) = []
   \<and> localStorage (fst (run [Offline, Track ''click'' [] ''e1'' 0, Track ''click'' [] ''e2'' 0]
       (newAnalytics (defaultConfig\<lparr>batchSize := 2\<rparr>) ''s1'' True, []))) = Some []"
  by (simp add: sdk_defs)

text \<open>
  Claim C8, evaluated on the code. \<^verbatim>\<open>flush(true)\<close> on an online instance with one
  queued event calls \<^verbatim>\<open>sendEvents\<close> before it looks at \<^verbatim>\<open>synchronous\<close>, and
  then \<^verbatim>\<open>sendEventsSync\<close>: the batch leaves once by \<^verbatim>\<open>fetch\<close>, whose response
  is awaited (it is in flight afterwards), and once more by \<^verbatim>\<open>sendBeacon\<close>.
\<close>

theorem C8_synchronous_flush_sends_twice:
  "flush True (newAnalytics defaultConfig ''s1'' True\<lparr>eventQueue := [sampleEvent ''e1'' 0]\<rparr>) =
     (Some [sampleEvent ''e1'' 0],
      newAnalytics defaultConfig ''s1'' True
        \<lparr>sent := [Fetch (payload [sampleEvent ''e1'' 0]), Beacon (payload [sampleEvent ''e1'' 0])]\<rparr>)"
  by (simp add: sdk_defs)

text \<open>The half of the claim that holds: every \<^verbatim>\<open>flush\<close> leaves the queue empty.\<close>

lemma flush_takes_and_clears: "eventQueue (snd (flush s a)) = []"
  by (simp add: flush_def Let_def sendEvents_start_def sendEventsSync_def)

section \<open>Properties of the query service\<close>

lemma includes_str_sublist: "includes_str s sub = sublist sub s"
  by (induction s) (simp_all add: sublist_Cons_right)

lemma includes_str_iff: "includes_str s sub \<longleftrightarrow> (\<exists>p q. s = p @ sub @ q)"
  by (simp add: includes_str_sublist sublist_def)

lemma toLowerCase_append: "toLowerCase (a @ b) = toLowerCase a @ toLowerCase b"
  by (simp add: toLowerCase_def)

lemma toLowerCase_split:
  assumes "toLowerCase s = a @ b"
  shows "\<exists>u v. s = u @ v \<and> toLowerCase u = a \<and> toLowerCase v = b"
proof (intro exI conjI)
  show "s = take (length a) s @ drop (length a) s" by simp
  have "toLowerCase (take (length a) s) = take (length a) (toLowerCase s)"
    by (simp add: toLowerCase_def take_map)
  then show "toLowerCase (take (length a) s) = a" using assms by simp
  have "toLowerCase (drop (length a) s) = drop (length a) (toLowerCase s)"
    by (simp add: toLowerCase_def drop_map)
  then show "toLowerCase (drop (length a) s) = b" using assms by simp
qed

lemma includes_ci_iff:
  "includes_str (toLowerCase s) kw \<longleftrightarrow> (\<exists>p w q. s = p @ w @ q \<and> toLowerCase w = kw)"
proof
  assume "includes_str (toLowerCase s) kw"
  then obtain p' q' where "toLowerCase s = p' @ kw @ q'"
    unfolding includes_str_iff by blast
  then obtain p r where pr: "s = p @ r" "toLowerCase r = kw @ q'"
    using toLowerCase_split [of s p' "kw @ q'"] by blast
  then obtain w q where "r = w @ q" "toLowerCase w = kw"
    using toLowerCase_split [of r kw q'] by blast
  with pr show "\<exists>p w q. s = p @ w @ q \<and> toLowerCase w = kw" by blast
next
  assume "\<exists>p w q. s = p @ w @ q \<and> toLowerCase w = kw"
  then obtain p w q where "s = p @ w @ q" "toLowerCase w = kw" by blast
  then have "toLowerCase s = toLowerCase p @ kw @ toLowerCase q"
    by (simp add: toLowerCase_append)
  then show "includes_str (toLowerCase s) kw"
    unfolding includes_str_iff by blast
qed

lemma validateSQL_rejects:
  assumes "e \<in> set (validateSQL_errors q)"
  shows "e \<in> set (errors (validateSQL ex q)) \<and> \<not> isValid (validateSQL ex q)"
proof -
  have "validateSQL_errors q \<noteq> []" using assms by auto
  then show ?thesis using assms by (simp add: validateSQL_def Let_def)
qed


lemma no_select_error:
  "\<not> includes_str (toLowerCase q) ''select'' \<Longrightarrow>
     ''Query must be a SELECT statement'' \<in> set (validateSQL_errors q)"
  by (simp add: validateSQL_errors_def)

lemma dangerous_error:
  "kw \<in> set dangerousKeywords \<Longrightarrow> includes_str (toLowerCase q) kw \<Longrightarrow>
     (''Dangerous operation detected: '' @ toUpperCase kw) \<in> set (validateSQL_errors q)"
  unfolding validateSQL_errors_def by (simp del: includes_str.simps) blast




text \<open>
  Claim C2. If a segment \<open>w\<close> of the query text spells one of the six keywords in any
  mix of upper and lower case, wherever it stands (inside a string literal, a comment, a
  longer word), the errors contain "Dangerous operation detected: " followed by the keyword
  in upper case, and the query is marked invalid. If no segment spells \<^verbatim>\<open>select\<close>, the
  errors contain "Query must be a SELECT statement" and the query is marked invalid.
\<close>

theorem C2_mutating_keyword_rejected:
  "(kw \<in> {''insert'', ''update'', ''delete'', ''drop'', ''alter'', ''create''}
      \<and> query = p @ w @ q \<and> toLowerCase w = kw \<longrightarrow>
        (''Dangerous operation detected: '' @ toUpperCase kw) \<in> set (errors (validateSQL ex query))
        \<and> \<not> isValid (validateSQL ex query))
   \<and> (\<not> (\<exists>p w q. query = p @ w @ q \<and> toLowerCase w = ''select'') \<longrightarrow>
        ''Query must be a SELECT statement'' \<in> set (errors (validateSQL ex query))
        \<and> \<not> isValid (validateSQL ex query))"
proof (intro conjI impI)
  assume h: "kw \<in> {''insert'', ''update'', ''delete'', ''drop'', ''alter'', ''create''}
      \<and> query = p @ w @ q \<and> toLowerCase w = kw"
  then have "kw \<in> set dangerousKeywords" by (auto simp: dangerousKeywords_def)
  moreover have "includes_str (toLowerCase query) kw"
    using h includes_ci_iff [of query kw] by blast
  ultimately have "(''Dangerous operation detected: '' @ toUpperCase kw) \<in> set (validateSQL_errors query)"
    by (rule dangerous_error)
  from validateSQL_rejects [OF this]
  show "(''Dangerous operation detected: '' @ toUpperCase kw) \<in> set (errors (validateSQL ex query))"
    and "\<not> isValid (validateSQL ex query)" by simp_all
next
  assume "\<not> (\<exists>p w q. query = p @ w @ q \<and> toLowerCase w = ''select'')"
  then have "\<not> includes_str (toLowerCase query) ''select''"
    unfolding includes_ci_iff .
  from validateSQL_rejects [OF no_select_error [OF this]]
  show "''Query must be a SELECT statement'' \<in> set (errors (validateSQL ex query))"
    and "\<not> isValid (validateSQL ex query)" by simp_all
qed


theorem C2_mutating_keyword_rejected_witness:
  "''Dangerous operation detected: DROP''
      \<in> set (errors (validateSQL explainOk ''SELECT 1 FROM events WHERE project_id = 1 -- Drop''))
   \<and> \<not> isValid (validateSQL explainOk ''SELECT 1 FROM events WHERE project_id = 1 -- Drop'')
   \<and> \<not> isValid (validateSQL explainOk ''SELECT 'a Delete b' FROM events WHERE project_id = 1'')
   \<and> \<not> isValid (validateSQL explainOk ''ALTER TABLE events'')
   \<and> ''Query must be a SELECT statement'' \<in> set (errors (validateSQL explainOk ''SHOW TABLES -- project_id''))"
proof -
  have low: "toLowerCase ''Drop'' = ''drop''" "toLowerCase ''Delete'' = ''delete''"
    "toLowerCase ''ALTER'' = ''alter''" "toUpperCase ''drop'' = ''DROP''"
    by code_simp+
  have a: "''drop'' \<in> {''insert'', ''update'', ''delete'', ''drop'', ''alter'', ''create''}
      \<and> ''SELECT 1 FROM events WHERE project_id = 1 -- Drop''
          = ''SELECT 1 FROM events WHERE project_id = 1 -- '' @ ''Drop'' @ []
      \<and> toLowerCase ''Drop'' = ''drop''"
    using low by simp
  have b: "''delete'' \<in> {''insert'', ''update'', ''delete'', ''drop'', ''alter'', ''create''}
      \<and> ''SELECT 'a Delete b' FROM events WHERE project_id = 1''
          = ''SELECT 'a '' @ ''Delete'' @ '' b' FROM events WHERE project_id = 1''
      \<and> toLowerCase ''Delete'' = ''delete''"
    using low by simp
  have c: "''alter'' \<in> {''insert'', ''update'', ''delete'', ''drop'', ''alter'', ''create''}
      \<and> ''ALTER TABLE events'' = [] @ ''ALTER'' @ '' TABLE events''
      \<and> toLowerCase ''ALTER'' = ''alter''"
    using low by simp
  have "\<not> includes_str (toLowerCase ''SHOW TABLES -- project_id'') ''select''"
    by code_simp
  then have d: "\<not> (\<exists>p w q. ''SHOW TABLES -- project_id'' = p @ w @ q \<and> toLowerCase w = ''select'')"
    unfolding includes_ci_iff .
  show ?thesis
    using C2_mutating_keyword_rejected [THEN conjunct1, rule_format, OF a, of explainOk]
      C2_mutating_keyword_rejected [THEN conjunct1, rule_format, OF b, of explainOk]
      C2_mutating_keyword_rejected [THEN conjunct1, rule_format, OF c, of explainOk]
      C2_mutating_keyword_rejected [THEN conjunct2, rule_format, OF d, of explainOk] low
    by simp
qed





section \<open>Properties of the ingestion routes\<close>

lemma validate_items_first_failure:
  assumes "i < length items" and "eventSchema_validate J now (items ! i) = Inl e0"
  shows "\<exists>j e. j \<le> i \<and> eventSchema_validate J now (items ! j) = Inl e
           \<and> (\<forall>k<j. \<exists>v. eventSchema_validate J now (items ! k) = Inr v)
           \<and> validate_items J now n items = Inl (JoiError (Key ''events'' # Index (n + j) # path e) (problem e))"
  using assms
proof (induction items arbitrary: i n)
  case Nil
  then show ?case by simp
next
  case (Cons x xs)
  show ?case
  proof (cases "eventSchema_validate J now x")
    case (Inl e)
    then have "eventSchema_validate J now ((x # xs) ! 0) = Inl e
        \<and> (\<forall>k<0. \<exists>v. eventSchema_validate J now ((x # xs) ! k) = Inr v)
        \<and> validate_items J now n (x # xs) = Inl (JoiError (Key ''events'' # Index (n + 0) # path e) (problem e))"
      by simp
    then show ?thesis by blast
  next
    case (Inr v)
    then obtain i' where i': "i = Suc i'" using Cons.prems by (cases i) auto
    then have "i' < length xs" and "eventSchema_validate J now (xs ! i') = Inl e0"
      using Cons.prems by simp_all
    from Cons.IH [OF this, of "Suc n"]
    obtain j e where j: "j \<le> i'" "eventSchema_validate J now (xs ! j) = Inl e"
      "\<forall>k<j. \<exists>v. eventSchema_validate J now (xs ! k) = Inr v"
      "validate_items J now (Suc n) xs = Inl (JoiError (Key ''events'' # Index (Suc n + j) # path e) (problem e))"
      by blast
    have "\<forall>k<Suc j. \<exists>v. eventSchema_validate J now ((x # xs) ! k) = Inr v"
    proof (intro allI impI)
      fix k assume "k < Suc j"
      then show "\<exists>v. eventSchema_validate J now ((x # xs) ! k) = Inr v"
        using Inr j(3) by (cases k) auto
    qed
    moreover have "validate_items J now n (x # xs) =
        Inl (JoiError (Key ''events'' # Index (n + Suc j) # path e) (problem e))"
      using Inr j(4) by simp
    moreover have "Suc j \<le> i" "eventSchema_validate J now ((x # xs) ! Suc j) = Inl e"
      using j i' by simp_all
    ultimately show ?thesis by blast
  qed
qed

text \<open>
  Claim C4. If some item of the submitted \<^verbatim>\<open>events\<close> array fails the event schema,
  \<^verbatim>\<open>POST /batch\<close> takes no effect at all (no insert, no cache command, no broadcast)
  and answers 400 with Joi's message for the first failing item \<open>j\<close>, whose label names
  the item and the field: \<^verbatim>\<open>events[j]\<close> followed by the path inside the item.
\<close>

theorem C4_batch_all_or_nothing:
  assumes "body req = JObj obj" and "map_of obj ''events'' = Some (JArr items)"
    and "i < length items" and "eventSchema_validate J now (items ! i) = Inl e0"
  shows "\<exists>j e. j \<le> i \<and> eventSchema_validate J now (items ! j) = Inl e
           \<and> (\<forall>k<j. \<exists>v. eventSchema_validate J now (items ! k) = Inr v)
           \<and> post_batch J B now req =
               ([], Reply 400 (JObj [(''error'',
                  JStr (joi_message (JoiError (Key ''events'' # Index j # path e) (problem e))))]))"
proof -
  from validate_items_first_failure [OF assms(3,4), of 0]
  obtain j e where j: "j \<le> i" "eventSchema_validate J now (items ! j) = Inl e"
    "\<forall>k<j. \<exists>v. eventSchema_validate J now (items ! k) = Inr v"
    "validate_items J now 0 items = Inl (JoiError (Key ''events'' # Index j # path e) (problem e))"
    by auto
  have "batchEventsSchema_validate J now (body req) =
      Inl (JoiError (Key ''events'' # Index j # path e) (problem e))"
    using assms(1,2) j(4) by (simp add: batchEventsSchema_validate_def)
  then have "post_batch J B now req =
      ([], Reply 400 (JObj [(''error'',
          JStr (joi_message (JoiError (Key ''events'' # Index j # path e) (problem e))))]))"
    by (simp add: post_batch_def error_reply_def)
  with j(1,2,3) show ?thesis by blast
qed

theorem C4_batch_all_or_nothing_witness:
  "post_batch sampleJoi (sampleBackend True) ''2024-06-01T12:00:00.000Z''
      (sampleRequest (JObj [(''events'',
         JArr [validEvent ''a'', validEvent ''b'', JObj [(''user_id'', JStr ''u1''), (''event_name'', JStr ''c'')]])]))
    = ([], Reply 400 (JObj [(''error'',
         JStr ([CHR 0x22] @ ''events[2].user_id'' @ [CHR 0x22] @ '' must be a valid GUID''))]))"
proof -
  let ?items = "[validEvent ''a'', validEvent ''b'', JObj [(''user_id'', JStr ''u1''), (''event_name'', JStr ''c'')]]"
  let ?obj = "[(''events'', JArr ?items)]"
  let ?now = "''2024-06-01T12:00:00.000Z''"
  have h1: "body (sampleRequest (JObj ?obj)) = JObj ?obj" by (simp add: sampleRequest_def)
  have h2: "map_of ?obj ''events'' = Some (JArr ?items)" by simp
  have h3: "2 < length ?items" by simp
  have h4: "eventSchema_validate sampleJoi ?now (?items ! 2) = Inl (JoiError [Key ''user_id''] ''must be a valid GUID'')"
    by code_simp
  have v0: "\<not> isl (eventSchema_validate sampleJoi ?now (?items ! 0))" by code_simp
  have v1: "\<not> isl (eventSchema_validate sampleJoi ?now (?items ! 1))" by code_simp
  from C4_batch_all_or_nothing [OF h1 h2 h3 h4, of "sampleBackend True"]
  obtain j e where j: "j \<le> 2" "eventSchema_validate sampleJoi ?now (?items ! j) = Inl e"
    "post_batch sampleJoi (sampleBackend True) ?now (sampleRequest (JObj ?obj)) =
       ([], Reply 400 (JObj [(''error'',
          JStr (joi_message (JoiError (Key ''events'' # Index j # path e) (problem e))))]))"
    by blast
  have "j = 0 \<or> j = 1 \<or> j = 2" using j(1) by arith
  moreover have "j \<noteq> 0" using j(2) v0 by (intro notI) simp
  moreover have "j \<noteq> 1" using j(2) v1 by (intro notI) simp
  ultimately have j2: "j = 2" by blast
  then have e: "e = JoiError [Key ''user_id''] ''must be a valid GUID''" using j(2) h4 by simp
  have "joi_message (JoiError [Key ''events'', Index 2, Key ''user_id''] ''must be a valid GUID'')
      = [CHR 0x22] @ ''events[2].user_id'' @ [CHR 0x22] @ '' must be a valid GUID''"
    by code_simp
  then show ?thesis using j(3) j2 e by simp
qed

lemma post_event_trace:
  "fst (post_event J B now req) = [] \<or>
   (\<exists>es rest. fst (post_event J B now req) = Insert es # rest \<and> insertOk B es
      \<and> (\<forall>x \<in> set rest. \<not> is_insert x))"
  by (simp add: post_event_def Let_def split: sum.splits)

lemma post_batch_trace:
  "fst (post_batch J B now req) = [] \<or>
   (\<exists>es rest. fst (post_batch J B now req) = Insert es # rest \<and> insertOk B es
      \<and> (\<forall>x \<in> set rest. \<not> is_insert x))"
  by (auto simp: post_batch_def Let_def split: sum.splits)

text \<open>
  Claim C5. For \<^verbatim>\<open>POST /\<close> and \<^verbatim>\<open>POST /batch\<close>: if any effect takes place, the
  first one is the successful ClickHouse insert, and everything after it is a cache
  command or a broadcast. If the request is valid and the insert fails, no effect takes
  place and the answer is 500 with an error body.
\<close>

theorem C5_durable_write_first:
  "(fst (post_event J B now req) = [] \<or>
     (\<exists>es rest. fst (post_event J B now req) = Insert es # rest \<and> insertOk B es
        \<and> (\<forall>x \<in> set rest. \<not> is_insert x)))
   \<and> (fst (post_batch J B now req) = [] \<or>
     (\<exists>es rest. fst (post_batch J B now req) = Insert es # rest \<and> insertOk B es
        \<and> (\<forall>x \<in> set rest. \<not> is_insert x)))
   \<and> (eventSchema_validate J now (body req) = Inr v \<and> \<not> insertOk B [enrich req v] \<longrightarrow>
        post_event J B now req = ([], Reply 500 (JObj [(''error'', JStr ''Failed to track event'')])))
   \<and> (batchEventsSchema_validate J now (body req) = Inr vs \<and> \<not> insertOk B (map (enrich req) vs) \<longrightarrow>
        post_batch J B now req = ([], Reply 500 (JObj [(''error'', JStr ''Failed to track batch events'')])))"
proof (intro conjI impI)
  show "fst (post_event J B now req) = [] \<or>
     (\<exists>es rest. fst (post_event J B now req) = Insert es # rest \<and> insertOk B es
        \<and> (\<forall>x \<in> set rest. \<not> is_insert x))"
    by (rule post_event_trace)
  show "fst (post_batch J B now req) = [] \<or>
     (\<exists>es rest. fst (post_batch J B now req) = Insert es # rest \<and> insertOk B es
        \<and> (\<forall>x \<in> set rest. \<not> is_insert x))"
    by (rule post_batch_trace)
next
  assume "eventSchema_validate J now (body req) = Inr v \<and> \<not> insertOk B [enrich req v]"
  then show "post_event J B now req = ([], Reply 500 (JObj [(''error'', JStr ''Failed to track event'')]))"
    by (simp add: post_event_def Let_def error_reply_def)
next
  assume "batchEventsSchema_validate J now (body req) = Inr vs \<and> \<not> insertOk B (map (enrich req) vs)"
  then show "post_batch J B now req = ([], Reply 500 (JObj [(''error'', JStr ''Failed to track batch events'')]))"
    by (simp add: post_batch_def Let_def error_reply_def)
qed

theorem C5_durable_write_first_witness:
  "post_event sampleJoi (sampleBackend False) ''2024-06-01T12:00:00.000Z'' (sampleRequest (validEvent ''a''))
     = ([], Reply 500 (JObj [(''error'', JStr ''Failed to track event'')]))
   \<and> post_batch sampleJoi (sampleBackend False) ''2024-06-01T12:00:00.000Z''
        (sampleRequest (JObj [(''events'', JArr [validEvent ''a''])]))
     = ([], Reply 500 (JObj [(''error'', JStr ''Failed to track batch events'')]))"
proof -
  let ?now = "''2024-06-01T12:00:00.000Z''"
  let ?v = "[(''user_id'', JStr ''123e4567-e89b-12d3-a456-426614174000''), (''event_name'', JStr ''a''),
             (''properties'', JObj []), (''timestamp'', JStr ?now), (''platform'', JStr ''web'')]"
  have a: "eventSchema_validate sampleJoi ?now (body (sampleRequest (validEvent ''a''))) = Inr ?v"
    by code_simp
  have b: "batchEventsSchema_validate sampleJoi ?now
      (body (sampleRequest (JObj [(''events'', JArr [validEvent ''a''])]))) = Inr [?v]"
    by code_simp
  have f: "\<not> insertOk (sampleBackend False) es" for es by (simp add: sampleBackend_def)
  show ?thesis
    using C5_durable_write_first [of sampleJoi "sampleBackend False" ?now
        "sampleRequest (validEvent ''a'')" ?v "[]"]
      C5_durable_write_first [of sampleJoi "sampleBackend False" ?now
        "sampleRequest (JObj [(''events'', JArr [validEvent ''a''])])" "[]" "[?v]"]
      a b f
    by simp
qed

section \<open>Properties of the real-time hub\<close>

text \<open>
  Claim C10. \<^verbatim>\<open>broadcastEvent\<close> emits one \<^verbatim>\<open>new_event\<close> message to every socket
  in the room of the project. In its payload the key \<^verbatim>\<open>timestamp\<close> holds the time of
  the broadcast, whatever the event held there; every other key holds what the event
  holds, and the payload has no key besides those of the event and \<^verbatim>\<open>timestamp\<close>.
\<close>

theorem C10_broadcast_overwrites_timestamp:
  "\<exists>msg. emitted (broadcastEvent now projectId event svc) =
            emitted svc @ map (\<lambda>sock. (sock, ''new_event'', JObj msg)) (members svc (''project_'' @ projectId))
         \<and> map_of msg ''timestamp'' = Some (JStr now)
         \<and> (\<forall>k. k \<noteq> ''timestamp'' \<longrightarrow> map_of msg k = map_of event k)
         \<and> set (map fst msg) = insert ''timestamp'' (set (map fst event))"
  by (rule exI [of _ "AList.update ''timestamp'' (JStr now) event"])
     (simp add: broadcastEvent_def emit_to_def update_conv' dom_update)

theorem C10_broadcast_overwrites_timestamp_witness:
  "\<exists>msg. emitted (broadcastEvent ''2024-06-01T12:00:00.000Z'' ''p1''
              [(''event_name'', JStr ''click''), (''timestamp'', JStr ''2024-01-01T00:00:00.000Z'')]
              \<lparr>rooms = [(''project_p1'', [''s1'', ''s2''])], emitted = []\<rparr>)
           = [(''s1'', ''new_event'', JObj msg), (''s2'', ''new_event'', JObj msg)]
        \<and> map_of msg ''timestamp'' = Some (JStr ''2024-06-01T12:00:00.000Z'')
        \<and> map_of msg ''event_name'' = Some (JStr ''click'')"
proof -
  let ?ev = "[(''event_name'', JStr ''click''), (''timestamp'', JStr ''2024-01-01T00:00:00.000Z'')]"
  let ?svc = "\<lparr>rooms = [(''project_p1'', [''s1'', ''s2''])], emitted = []\<rparr>"
  from C10_broadcast_overwrites_timestamp [of "''2024-06-01T12:00:00.000Z''" "''p1''" ?ev ?svc]
  obtain msg where m1:
    "emitted (broadcastEvent ''2024-06-01T12:00:00.000Z'' ''p1'' ?ev ?svc) =
       emitted ?svc @ map (\<lambda>sock. (sock, ''new_event'', JObj msg)) (members ?svc (''project_'' @ ''p1''))"
    and m2: "map_of msg ''timestamp'' = Some (JStr ''2024-06-01T12:00:00.000Z'')"
    and m3: "\<forall>k. k \<noteq> ''timestamp'' \<longrightarrow> map_of msg k = map_of ?ev k"
    by (elim exE conjE)
  have ne: "''event_name'' \<noteq> ''timestamp''" by simp
  have "map_of msg ''event_name'' = map_of ?ev ''event_name''"
    using m3 [rule_format, OF ne] .
  then have m4: "map_of msg ''event_name'' = Some (JStr ''click'')" by simp
  have mem: "members ?svc (''project_'' @ ''p1'') = [''s1'', ''s2'']"
    by (simp add: members_def)
  have "emitted (broadcastEvent ''2024-06-01T12:00:00.000Z'' ''p1'' ?ev ?svc)
      = [(''s1'', ''new_event'', JObj msg), (''s2'', ''new_event'', JObj msg)]"
    unfolding m1 mem by simp
  with m2 m4 show ?thesis by (intro exI [of _ msg] conjI)
qed

section \<open>Properties of the funnel analysis\<close>

lemma funnelData_nth:
  "i < length events \<Longrightarrow> funnelData events rawData ! i = funnelStep rawData (events ! i) i"
  by (simp add: funnelData_def)

lemma Math_round_int: "Math_round (of_int n) = n"
proof -
  have "floor (of_int n + (1 / 2 :: rat)) = n" by linarith
  then show ?thesis by (simp add: Math_round_def)
qed

lemma funnel_rate_nth:
  assumes "i < length events"
  shows "users (funnelData events rawData ! i) = usersAtStep rawData (i + 1)"
    and "conversion_rate (funnelData events rawData ! i) =
          (if i = 0 then (if 0 < usersAtStep rawData 1 then 100 else 0)
           else if 0 < usersAtStep rawData i
           then of_int (Math_round
                  (of_nat (usersAtStep rawData (i + 1)) / of_nat (usersAtStep rawData i) * 100 * 100)) / 100
           else 0)"
proof -
  show "users (funnelData events rawData ! i) = usersAtStep rawData (i + 1)"
    using assms by (simp add: funnelData_nth funnelStep_def usersAtStep_def Let_def)
  have r0: "of_int (Math_round 0) / (100 :: rat) = 0"
    using Math_round_int [of 0] by simp
  have r100: "of_int (Math_round (100 * 100)) / (100 :: rat) = 100"
    using Math_round_int [of 10000] by simp
  show "conversion_rate (funnelData events rawData ! i) =
          (if i = 0 then (if 0 < usersAtStep rawData 1 then 100 else 0)
           else if 0 < usersAtStep rawData i
           then of_int (Math_round
                  (of_nat (usersAtStep rawData (i + 1)) / of_nat (usersAtStep rawData i) * 100 * 100)) / 100
           else 0)"
  proof (cases "i = 0")
    case True
    then show ?thesis using assms r0 r100
      by (simp add: funnelData_nth funnelStep_def usersAtStep_def Let_def)
  next
    case False
    then show ?thesis using assms r0
      by (simp add: funnelData_nth funnelStep_def usersAtStep_def Let_def split: option.splits)
  qed
qed




text \<open>The example of the spec: counts 1000, 300, 45 give the rates 100, 30, 15.\<close>

lemma funnel_example_rates:
  "conversion_rate (funnelData [''A'', ''B'', ''C'']
       [(''step_1_users'', 1000), (''step_2_users'', 300), (''step_3_users'', 45)] ! 0) = 100
   \<and> conversion_rate (funnelData [''A'', ''B'', ''C'']
       [(''step_1_users'', 1000), (''step_2_users'', 300), (''step_3_users'', 45)] ! 1) = 30
   \<and> conversion_rate (funnelData [''A'', ''B'', ''C'']
       [(''step_1_users'', 1000), (''step_2_users'', 300), (''step_3_users'', 45)] ! 2) = 15"
proof -
  let ?rd = "[(''step_1_users'', 1000), (''step_2_users'', 300), (''step_3_users'', 45)]"
  let ?f = "funnelData [''A'', ''B'', ''C''] ?rd"
  have u: "usersAtStep ?rd 1 = 1000" "usersAtStep ?rd (1 + 1) = 300"
    "usersAtStep ?rd 2 = 300" "usersAtStep ?rd (2 + 1) = 45"
    by code_simp+
  have m: "of_int (Math_round (of_nat 300 / of_nat 1000 * 100 * 100)) / (100 :: rat) = 30"
    "of_int (Math_round (of_nat 45 / of_nat 300 * 100 * 100)) / (100 :: rat) = 15"
    by (simp_all add: Math_round_def floor_eq_iff)
  have c0: "conversion_rate (?f ! 0) = 100"
    using funnel_rate_nth(2) [of 0 "[''A'', ''B'', ''C'']" ?rd] unfolding u by simp
  have c1: "conversion_rate (?f ! 1) = 30"
    using funnel_rate_nth(2) [of 1 "[''A'', ''B'', ''C'']" ?rd] unfolding u m by simp
  have c2: "conversion_rate (?f ! 2) = 15"
    using funnel_rate_nth(2) [of 2 "[''A'', ''B'', ''C'']" ?rd] unfolding u m by simp
  from c0 c1 c2 show ?thesis by (intro conjI)
qed

text \<open>
  The route itself never sees the counts of the store (see \<open>get_funnel\<close>): whatever
  the query yields, every step is reported with 0 users and the rate 0.
\<close>

lemma get_funnel_ignores_counts:
  "get_funnel (Some ''A,B'') (Inr rows)
   = Funnel [\<lparr>step = 1, step_event_name = ''A'', users = 0, conversion_rate = 0\<rparr>,
             \<lparr>step = 2, step_event_name = ''B'', users = 0, conversion_rate = 0\<rparr>] [''A'', ''B'']"
  using Math_round_int [of 0]
  by (simp add: get_funnel_def funnelData_def funnelStep_def Let_def)

end
